theory Spec2Isabelle
  imports Main
begin

section \<open>Shared notions\<close>

text \<open>
  The errors the two components raise. \<open>FileError\<close> stands for a rejected read
  (missing file, malformed YAML); \<open>TypeError\<close> for JavaScript's own failure when a
  non-string reaches \<open>path.resolve\<close> or a missing method is called.
\<close>

datatype error =
    UnknownCommandError
  | InvalidSelectorError
  | NoSuchElementError
  | FileError
  | TypeError

text \<open>
  \<open>Number.prototype.toString\<close> on a non-negative integer: its decimal digits.
  The counter of the registry and the indices of arrays are natural numbers here, which
  is exact for JavaScript numbers below \<open>2^53\<close>.
\<close>

definition digits :: string where
  "digits = ''0123456789''"

definition digit_char :: "nat \<Rightarrow> char" where
  "digit_char d = digits ! (d mod 10)"

fun toString :: "nat \<Rightarrow> string" where
  "toString n =
     (if n < 10 then [digit_char n] else toString (n div 10) @ [digit_char (n mod 10)])"

declare toString.simps [simp del]

text \<open>
  A JavaScript object as the list of its own properties in enumeration order.
  \<open>set_prop ps k v\<close> is the assignment \<open>obj[k] = v\<close>: an existing property keeps
  its place, a new one goes to the end. (JavaScript lists keys that are array indices
  first, in ascending order; the registry adds such keys in ascending order, and so
  does the merge of one array into another, so there the two orders agree; no result
  below depends on the order in which a mapping lists its keys.)
\<close>

fun set_prop :: "('k \<times> 'v) list \<Rightarrow> 'k \<Rightarrow> 'v \<Rightarrow> ('k \<times> 'v) list" where
  "set_prop [] k v = [(k, v)]"
| "set_prop ((k', v') # ps) k v =
     (if k' = k then (k, v) # ps else (k', v') # set_prop ps k v)"

section \<open>The element registry of the fake driver\<close>

text \<open>
  Modelled from the spec: class \<open>FakeElement\<close> (module \<open>../fake-element\<close>) is not
  among the sources. The spec's ElementHandle keeps the underlying queried object under
  \<open>node\<close>, compared by identity; nodes are the values of an arbitrary type \<open>'n\<close>
  whose equality is that identity.
\<close>

datatype 'n FakeElement = FakeElement (node: 'n)

text \<open>The object \<open>{ELEMENT: id}\<close> handed to the caller.\<close>

datatype Element = Element (ELEMENT: string)

text \<open>
  The structural query model is an external collaborator: its four query methods take
  the selector and the optional context and return the matching nodes.
\<close>

record ('n, 'c) AppModel =
  xpathQuery :: "string \<Rightarrow> 'c option \<Rightarrow> 'n list"
  idQuery :: "string \<Rightarrow> 'c option \<Rightarrow> 'n list"
  classQuery :: "string \<Rightarrow> 'c option \<Rightarrow> 'n list"
  cssQuery :: "string \<Rightarrow> 'c option \<Rightarrow> 'n list"

text \<open>The fields of \<open>FakeDriver\<close> that the find mixin reads and writes.\<close>

record ('n, 'c) FakeDriver =
  elMap :: "(string \<times> 'n FakeElement) list"
  maxElId :: nat
  appModel :: "('n, 'c) AppModel"

text \<open>
  Modelled from the spec: the constructor of \<open>FakeDriver\<close> (module \<open>../driver\<close>) is
  not among the sources. The spec's registry starts with no entry and the counter
  \<open>maxId\<close> at 0.
\<close>

definition newDriver :: "('n, 'c) AppModel \<Rightarrow> ('n, 'c) FakeDriver" where
  "newDriver m = \<lparr>elMap = [], maxElId = 0, appModel = m\<rparr>"

text \<open>The loop of \<open>getExistingElementForNode\<close> over \<open>_.toPairs(this.elMap)\<close>.\<close>

fun findNode :: "(string \<times> 'n FakeElement) list \<Rightarrow> 'n \<Rightarrow> string option" where
  "findNode [] n = None"
| "findNode ((eid, el) # ps) n = (if node el = n then Some eid else findNode ps n)"

definition getExistingElementForNode :: "('n, 'c) FakeDriver \<Rightarrow> 'n \<Rightarrow> string option" where
  "getExistingElementForNode d n = findNode (elMap d) n"

text \<open>
  \<open>wrapNewEl\<close>: the test \<open>if (existingElId)\<close> is JavaScript truthiness, so both
  \<open>null\<close> and the empty string fall through to the allocation.
\<close>

definition addEl :: "('n, 'c) FakeDriver \<Rightarrow> 'n \<Rightarrow> Element \<times> ('n, 'c) FakeDriver" where
  "addEl d obj =
     (let d1 = d\<lparr>maxElId := maxElId d + 1\<rparr>;
          d2 = d1\<lparr>elMap := set_prop (elMap d1) (toString (maxElId d1)) (FakeElement obj)\<rparr>
      in (Element (toString (maxElId d2)), d2))"

definition wrapNewEl :: "('n, 'c) FakeDriver \<Rightarrow> 'n \<Rightarrow> Element \<times> ('n, 'c) FakeDriver" where
  "wrapNewEl d obj =
     (case getExistingElementForNode d obj of
        Some existingElId \<Rightarrow>
          if existingElId \<noteq> [] then (Element existingElId, d) else addEl d obj
      | None \<Rightarrow> addEl d obj)"

text \<open>The strategy table of \<open>findElOrEls\<close> and the dispatch \<open>this.appModel[name]\<close>.\<close>

definition qMap :: "(string \<times> string) list" where
  "qMap =
     [(''xpath'', ''xpathQuery''),
      (''id'', ''idQuery''),
      (''accessibility id'', ''idQuery''),
      (''class name'', ''classQuery''),
      (''tag name'', ''classQuery''),
      (''css selector'', ''cssQuery'')]"

definition queryMethod :: "('n, 'c) AppModel \<Rightarrow> string \<Rightarrow> (string \<Rightarrow> 'c option \<Rightarrow> 'n list) option" where
  "queryMethod m name =
     (if name = ''xpathQuery'' then Some (xpathQuery m)
      else if name = ''idQuery'' then Some (idQuery m)
      else if name = ''classQuery'' then Some (classQuery m)
      else if name = ''cssQuery'' then Some (cssQuery m)
      else None)"

datatype retval = One Element | Many "Element list"

text \<open>The loop \<open>for (let el of els) allEls.push(this.wrapNewEl(el))\<close>.\<close>

fun wrapAll :: "('n, 'c) FakeDriver \<Rightarrow> 'n list \<Rightarrow> Element list \<times> ('n, 'c) FakeDriver" where
  "wrapAll d [] = ([], d)"
| "wrapAll d (el # els) =
     (case wrapNewEl d el of (e, d1) \<Rightarrow>
        (case wrapAll d1 els of (es, d2) \<Rightarrow> (e # es, d2)))"

text \<open>
  \<open>findElOrEls\<close> returns the outcome together with the driver as the call leaves it,
  so that a thrown error still shows what happened to the registry.
\<close>

definition findElOrEls ::
  "('n, 'c) FakeDriver \<Rightarrow> string \<Rightarrow> string \<Rightarrow> bool \<Rightarrow> 'c option
     \<Rightarrow> (error + retval) \<times> ('n, 'c) FakeDriver" where
  "findElOrEls d strategy selector mult ctx =
     (if strategy \<notin> set (map fst qMap) then (Inl UnknownCommandError, d)
      else if selector = ''badsel'' then (Inl InvalidSelectorError, d)
      else
        (case map_of qMap strategy of
           None \<Rightarrow> (Inl TypeError, d)
         | Some name \<Rightarrow>
             (case queryMethod (appModel d) name of
                None \<Rightarrow> (Inl TypeError, d)
              | Some query \<Rightarrow>
                  (case query selector ctx of
                     [] \<Rightarrow> if mult then (Inr (Many []), d) else (Inl NoSuchElementError, d)
                   | el0 # rest \<Rightarrow>
                       if mult then
                         (case wrapAll d (el0 # rest) of (allEls, d') \<Rightarrow> (Inr (Many allEls), d'))
                       else
                         (case wrapNewEl d el0 of (e, d') \<Rightarrow> (Inr (One e), d'))))))"

text \<open>
  The registry states a driver can be in: \<open>steps d d'\<close> holds when \<open>d'\<close> comes from
  \<open>d\<close> by any number of calls of \<open>wrapNewEl\<close> and \<open>findElOrEls\<close>.
\<close>

inductive steps :: "('n, 'c) FakeDriver \<Rightarrow> ('n, 'c) FakeDriver \<Rightarrow> bool" where
  steps_refl: "steps d d"
| steps_wrap: "steps d d1 \<Longrightarrow> steps d (snd (wrapNewEl d1 n))"
| steps_find: "steps d d1 \<Longrightarrow> steps d (snd (findElOrEls d1 strategy selector mult ctx))"


text \<open>
  What holds of every registry a driver can reach: the keys are the decimal strings of
  \<open>1 .. maxElId\<close>, in that order, and no node is registered twice.
\<close>

definition reg_inv :: "('n, 'c) FakeDriver \<Rightarrow> bool" where
  "reg_inv d \<longleftrightarrow>
     map fst (elMap d) = map toString [1..<Suc (maxElId d)] \<and>
     distinct (map (\<lambda>p. node (snd p)) (elMap d))"

text \<open>The six strategies \<open>findElOrEls\<close> recognises.\<close>

definition strategies :: "string set" where
  "strategies =
     {''xpath'', ''id'', ''accessibility id'', ''class name'', ''tag name'', ''css selector''}"

text \<open>
  A small model for concrete runs: nodes are numbers, \<open>idQuery\<close> finds the node
  \<open>7\<close> under the selector \<open>seven\<close>, and every other query finds nothing.
\<close>

definition exModel :: "(nat, unit) AppModel" where
  "exModel =
     \<lparr>xpathQuery = (\<lambda>sel ctx. []),
      idQuery = (\<lambda>sel ctx. if sel = ''seven'' then [7] else []),
      classQuery = (\<lambda>sel ctx. []),
      cssQuery = (\<lambda>sel ctx. [])\<rparr>"

text \<open>The fresh driver after registering node \<open>7\<close>, and after registering node \<open>8\<close> as well.\<close>

definition exDriver1 :: "(nat, unit) FakeDriver" where
  "exDriver1 = \<lparr>elMap = [(''1'', FakeElement 7)], maxElId = 1, appModel = exModel\<rparr>"

definition exDriver2 :: "(nat, unit) FakeDriver" where
  "exDriver2 =
     \<lparr>elMap = [(''1'', FakeElement 7), (''2'', FakeElement 8)], maxElId = 2, appModel = exModel\<rparr>"

section \<open>The inherited \<open>mkdocs.yml\<close> configuration\<close>

subsection \<open>Parsed YAML values\<close>

text \<open>
  What \<open>YAML.parse\<close> hands to the code: scalars, and objects. A JavaScript array is
  an object whose properties are its indices, which is how lodash's merge walks it, so
  mappings and sequences share one constructor and differ in their \<open>kind\<close>. Numbers
  are integers here, and documents are trees (no YAML alias shares a collection). The
  lists hold the own enumerable properties; what an object inherits from its prototype
  is accounted for where lodash reads it, in \<open>safeGet\<close> below.
\<close>

datatype kind = Mapping | Sequence

datatype yaml =
    YNull
  | YBool bool
  | YNum int
  | YStr string
  | YObj kind "(string \<times> yaml) list"

type_synonym props = "(string \<times> yaml) list"

definition ySeq :: "yaml list \<Rightarrow> yaml" where
  "ySeq xs = YObj Sequence (zip (map toString [0..<length xs]) xs)"

text \<open>JavaScript truthiness, as tested by \<open>if (mkDocsYml.site_dir)\<close>.\<close>

fun truthy :: "yaml \<Rightarrow> bool" where
  "truthy YNull = False"
| "truthy (YBool b) = b"
| "truthy (YNum n) = (n \<noteq> 0)"
| "truthy (YStr s) = (s \<noteq> [])"
| "truthy (YObj k ps) = True"

text \<open>lodash's \<open>isObject\<close>: true of mappings and of arrays.\<close>

fun isObject :: "yaml \<Rightarrow> bool" where
  "isObject (YObj k ps) = True"
| "isObject v = False"

subsection \<open>\<open>_.defaultsDeep\<close>\<close>

text \<open>
  lodash 4.17.21 (the version \<open>package.json\<close> pins) defines
  \<open>defaultsDeep(object, source)\<close> as \<open>mergeWith\<close> under the customizer
  \<open>customDefaultsMerge\<close>, and mutates and returns \<open>object\<close>. From lodash's source:
  \<^verbatim>\<open>
  function customDefaultsMerge(objValue, srcValue, key, object, source, stack) {
    if (isObject(objValue) && isObject(srcValue)) {
      // Recursively merge objects and arrays (susceptible to call stack limits).
      stack.set(srcValue, objValue);
      baseMerge(objValue, srcValue, undefined, customDefaultsMerge, stack);
      stack['delete'](srcValue);
    }
    return objValue;
  }
  function safeGet(object, key) {
    if (key === 'constructor' && typeof object[key] === 'function') { return; }
    if (key == '__proto__') { return; }
    return object[key];
  }
  function assignMergeValue(object, key, value) {
    if ((value !== undefined && !eq(object[key], value)) ||
        (value === undefined && !(key in object))) {
      baseAssignValue(object, key, value);
    }
  }
  \<close>
  \<open>baseMerge\<close> visits the properties of the source in order. The object's value is
  read with \<open>safeGet\<close>, that is, through the prototype chain: a key the object does
  not own but inherits (\<open>toString\<close>, \<open>valueOf\<close>, ..., and for an array its
  \<open>length\<close> and the members of \<open>Array.prototype\<close>) reads as the inherited value.
\<close>

text \<open>
  The own properties of \<open>Object.prototype\<close>, which every mapping and every array
  inherits. What an array has beyond that is fixed by the JavaScript engine and is a
  parameter \<open>arr\<close> of the merge.
\<close>

definition objectPrototype :: "string list" where
  "objectPrototype =
     [''constructor'', ''__defineGetter__'', ''__defineSetter__'', ''hasOwnProperty'',
      ''__lookupGetter__'', ''__lookupSetter__'', ''isPrototypeOf'', ''propertyIsEnumerable'',
      ''toString'', ''valueOf'', ''__proto__'', ''toLocaleString'']"

definition inherits :: "(string \<Rightarrow> bool) \<Rightarrow> kind \<Rightarrow> string \<Rightarrow> bool" where
  "inherits arr k key \<longleftrightarrow> key \<in> set objectPrototype \<or> (k = Sequence \<and> arr key)"

text \<open>
  What \<open>safeGet(object, key)\<close> returns: \<open>undefined\<close>, the object's own value, or an
  inherited value (a function, or the length of an array), which is no YAML value and
  is never \<open>undefined\<close>. An inherited \<open>constructor\<close> is a function, so it reads as
  \<open>undefined\<close>; an own one is a YAML value and is returned.
\<close>

datatype got = Undefined | Own yaml | Foreign

definition safeGet :: "(string \<Rightarrow> bool) \<Rightarrow> kind \<Rightarrow> props \<Rightarrow> string \<Rightarrow> got" where
  "safeGet arr k object key =
     (if key = ''__proto__'' then Undefined
      else
        (case map_of object key of
           Some v \<Rightarrow> Own v
         | None \<Rightarrow>
             if key = ''constructor'' then Undefined
             else if inherits arr k key then Foreign
             else Undefined))"

text \<open>
  One round of \<open>baseMerge\<close> on the property \<open>key: srcValue\<close> of the source:
  \<^item> the object's value is its own: the customizer merges into it when both values are
    objects, and answers with it; nothing else is assigned;
  \<^item> it is \<open>undefined\<close>: the customizer answers \<open>undefined\<close>, so the source's value
    is taken, as a deep copy made by merging it into a fresh object of its kind, and
    assigned;
  \<^item> it is inherited: the customizer answers with the inherited value, which
    \<open>assignMergeValue\<close> finds equal to \<open>object[key]\<close>, so the object stays as it is
    (when the source's value is an object, lodash merges it into the inherited function,
    which no document sees);
  \<^item> the key is \<open>__proto__\<close>: \<open>safeGet\<close> hides the value on both sides. A source
    value that is no object is assigned over whatever the object owns; a source value
    that is an object reads as \<open>undefined\<close> in \<open>baseMergeDeep\<close>, and nothing is
    assigned because \<open>'__proto__' in object\<close> holds.
\<close>

function baseMerge :: "(string \<Rightarrow> bool) \<Rightarrow> kind \<Rightarrow> props \<Rightarrow> props \<Rightarrow> props"
  and customDefaultsMerge :: "(string \<Rightarrow> bool) \<Rightarrow> yaml \<Rightarrow> yaml \<Rightarrow> yaml"
  and copyValue :: "(string \<Rightarrow> bool) \<Rightarrow> yaml \<Rightarrow> yaml" where
  "baseMerge arr k object [] = object"
| "baseMerge arr k object ((key, srcValue) # source) =
     baseMerge arr k
       (if key = ''__proto__'' then
          (if isObject srcValue then object else set_prop object key srcValue)
        else
          (case safeGet arr k object key of
             Own objValue \<Rightarrow> set_prop object key (customDefaultsMerge arr objValue srcValue)
           | Foreign \<Rightarrow> object
           | Undefined \<Rightarrow> set_prop object key (copyValue arr srcValue)))
       source"
| "customDefaultsMerge arr (YObj ko po) (YObj ks ps) = YObj ko (baseMerge arr ko po ps)"
| "customDefaultsMerge arr (YObj ko po) YNull = YObj ko po"
| "customDefaultsMerge arr (YObj ko po) (YBool b) = YObj ko po"
| "customDefaultsMerge arr (YObj ko po) (YNum n) = YObj ko po"
| "customDefaultsMerge arr (YObj ko po) (YStr s) = YObj ko po"
| "customDefaultsMerge arr YNull srcValue = YNull"
| "customDefaultsMerge arr (YBool b) srcValue = YBool b"
| "customDefaultsMerge arr (YNum n) srcValue = YNum n"
| "customDefaultsMerge arr (YStr s) srcValue = YStr s"
| "copyValue arr (YObj ks ps) = YObj ks (baseMerge arr ks [] ps)"
| "copyValue arr YNull = YNull"
| "copyValue arr (YBool b) = YBool b"
| "copyValue arr (YNum n) = YNum n"
| "copyValue arr (YStr s) = YStr s"
  by pat_completeness auto
termination
  by (relation "measure (\<lambda>x. case x of
        Inl (arr, k, object, source) \<Rightarrow> size_list (size_prod (\<lambda>k. 0) size) source
      | Inr (Inl (arr, objValue, srcValue)) \<Rightarrow> size srcValue
      | Inr (Inr (arr, v)) \<Rightarrow> size v)") auto

text \<open>A document is a mapping.\<close>

definition defaultsDeep :: "(string \<Rightarrow> bool) \<Rightarrow> props \<Rightarrow> props \<Rightarrow> props" where
  "defaultsDeep arr object source = baseMerge arr Mapping object source"

subsection \<open>Node's \<open>path\<close> module (POSIX)\<close>

text \<open>
  \<open>path.dirname\<close>: trailing slashes are skipped, then the last component; what is
  left of the last slash before it is the answer.
\<close>

definition path_dirname :: "string \<Rightarrow> string" where
  "path_dirname p =
     (if p = [] then ''.''
      else
        (let hasRoot = (hd p = CHR ''/'');
             r = dropWhile (\<lambda>c. c \<noteq> CHR ''/'') (dropWhile (\<lambda>c. c = CHR ''/'') (rev (tl p)));
             e = length r
         in if r = [] then (if hasRoot then ''/'' else ''.'')
            else if hasRoot \<and> e = 1 then ''//''
            else take e p))"

text \<open>
  \<open>path.resolve\<close>: the arguments are taken from the right, and then the working
  directory, until one of them is absolute; empty ones are skipped. The result is
  normalised segment by segment (\<open>normalizeString\<close>).
\<close>

fun resolveLoop :: "string list \<Rightarrow> string \<Rightarrow> string \<times> bool" where
  "resolveLoop [] resolvedPath = (resolvedPath, False)"
| "resolveLoop (p # ps) resolvedPath =
     (if p = [] then resolveLoop ps resolvedPath
      else if hd p = CHR ''/'' then (p @ ''/'' @ resolvedPath, True)
      else resolveLoop ps (p @ ''/'' @ resolvedPath))"

fun splitSlash :: "string \<Rightarrow> string \<Rightarrow> string list" where
  "splitSlash seg [] = [rev seg]"
| "splitSlash seg (c # cs) =
     (if c = CHR ''/'' then rev seg # splitSlash [] cs else splitSlash (c # seg) cs)"

fun normalizeString :: "bool \<Rightarrow> string list \<Rightarrow> string list \<Rightarrow> string list" where
  "normalizeString allowAboveRoot res [] = rev res"
| "normalizeString allowAboveRoot res (s # ss) =
     (if s = [] \<or> s = ''.'' then normalizeString allowAboveRoot res ss
      else if s = ''..'' then
        (if res \<noteq> [] \<and> hd res \<noteq> ''..'' then normalizeString allowAboveRoot (tl res) ss
         else if allowAboveRoot then normalizeString allowAboveRoot (''..'' # res) ss
         else normalizeString allowAboveRoot res ss)
      else normalizeString allowAboveRoot (s # res) ss)"

fun joinSlash :: "string list \<Rightarrow> string" where
  "joinSlash [] = []"
| "joinSlash [s] = s"
| "joinSlash (s # t # ss) = s @ ''/'' @ joinSlash (t # ss)"

definition path_resolve :: "string \<Rightarrow> string list \<Rightarrow> string" where
  "path_resolve cwd args =
     (case resolveLoop (rev args @ [cwd]) [] of
        (resolvedPath, resolvedAbsolute) \<Rightarrow>
          (let n = joinSlash (normalizeString (\<not> resolvedAbsolute) [] (splitSlash [] resolvedPath))
           in if resolvedAbsolute then ''/'' @ n
              else if n \<noteq> [] then n else ''.''))"

subsection \<open>\<open>readYaml\<close> and \<open>readMkDocsYml\<close>\<close>

text \<open>
  The environment of a run: \<open>storage\<close> is \<open>fs.readFile\<close> followed by
  \<open>YAML.parse\<close> (a document is a mapping, as the cast to \<open>MkDocsYml\<close> says),
  \<open>process_cwd\<close> is \<open>process.cwd()\<close>, and \<open>arrayInherited\<close> tells which
  names the engine's arrays have beyond their elements and beyond what every object
  inherits.
\<close>

record env =
  storage :: "string \<Rightarrow> error + props"
  process_cwd :: string
  arrayInherited :: "string \<Rightarrow> bool"

text \<open>
  The two \<open>_.memoize\<close> caches, keyed by the first argument. \<open>readYaml\<close> creates one
  document object for each key it misses, and nothing else creates one, so the object
  is named by that key: \<open>yamlCache\<close> holds the settled promise of each key together
  with the present content of its object, and mutating the object in place is
  \<open>store\<close>. \<open>readMkDocsYml\<close> resolves to a reference to such an object, and
  \<open>mkDocsCache\<close> keeps that reference. \<open>reads\<close> counts the calls of the storage.
\<close>

record state =
  yamlCache :: "string \<Rightarrow> (error + props) option"
  mkDocsCache :: "string \<Rightarrow> (error + string) option"
  reads :: nat

definition emptyState :: state where
  "emptyState = \<lparr>yamlCache = (\<lambda>p. None), mkDocsCache = (\<lambda>p. None), reads = 0\<rparr>"

definition readYaml :: "env \<Rightarrow> state \<Rightarrow> string \<Rightarrow> (error + props) \<times> state" where
  "readYaml e st filepath =
     (case yamlCache st filepath of
        Some r \<Rightarrow> (r, st)
      | None \<Rightarrow>
          (let r = storage e filepath
           in (r, st\<lparr>yamlCache := (yamlCache st)(filepath := Some r), reads := reads st + 1\<rparr>)))"

definition store :: "state \<Rightarrow> string \<Rightarrow> props \<Rightarrow> state" where
  "store st ref d = st\<lparr>yamlCache := (yamlCache st)(ref := Some (Inr d))\<rparr>"

definition deref :: "state \<Rightarrow> string \<Rightarrow> props option" where
  "deref st ref = (case yamlCache st ref of Some (Inr d) \<Rightarrow> Some d | _ \<Rightarrow> None)"

text \<open>
  Reading a path-valued field the way the code does: a missing or falsy value is
  skipped, a truthy string goes to \<open>path.resolve\<close>, and any other truthy value makes
  \<open>path.resolve\<close> throw. The three fields read this way, \<open>site_dir\<close>,
  \<open>docs_dir\<close> and \<open>INHERIT\<close>, name nothing a mapping inherits, so a field the
  document does not own is \<open>undefined\<close>.
\<close>

definition pathField :: "props \<Rightarrow> string \<Rightarrow> error + string option" where
  "pathField d key =
     (case map_of d key of
        None \<Rightarrow> Inr None
      | Some v \<Rightarrow>
          if \<not> truthy v then Inr None
          else (case v of YStr s \<Rightarrow> Inr (Some s) | _ \<Rightarrow> Inl TypeError))"

text \<open>\<open>if (d.key) d.key = path.resolve(...bases, d.key)\<close>.\<close>

definition resolveField :: "env \<Rightarrow> string list \<Rightarrow> string \<Rightarrow> props \<Rightarrow> error + props" where
  "resolveField e bases key d =
     (case pathField d key of
        Inl err \<Rightarrow> Inl err
      | Inr None \<Rightarrow> Inr d
      | Inr (Some v) \<Rightarrow> Inr (set_prop d key (YStr (path_resolve (process_cwd e) (bases @ [v])))))"

text \<open>
  The \<open>while (inheritPath)\<close> loop. \<open>mkDocsYml\<close> is the object cached under
  \<open>filepath\<close>; when the parent is that very object, lodash's merge returns at once.
  The loop may run forever, in which case the value is \<open>None\<close>.
\<close>

partial_function (option) inheritLoop ::
  "env \<Rightarrow> string \<Rightarrow> string \<Rightarrow> state \<Rightarrow> ((error + unit) \<times> state) option" where
  "inheritLoop e filepath inheritPath st =
     (if inheritPath = [] then Some (Inr (), st)
      else
        (case readYaml e st inheritPath of
           (Inl err, st1) \<Rightarrow> Some (Inl err, st1)
         | (Inr inheritYml, st1) \<Rightarrow>
             (case resolveField e [path_dirname inheritPath] ''site_dir'' inheritYml of
                Inl err \<Rightarrow> Some (Inl err, st1)
              | Inr y1 \<Rightarrow>
                  (case resolveField e [path_dirname inheritPath] ''docs_dir'' y1 of
                     Inl err \<Rightarrow> Some (Inl err, store st1 inheritPath y1)
                   | Inr y2 \<Rightarrow>
                       (let st2 = store st1 inheritPath y2;
                            st3 =
                              (if inheritPath = filepath then st2
                               else
                                 (case deref st2 filepath of
                                    None \<Rightarrow> st2
                                  | Some mkDocsYml \<Rightarrow>
                                      store st2 filepath (defaultsDeep (arrayInherited e) mkDocsYml y2)))
                        in
                          (case pathField y2 ''INHERIT'' of
                             Inl err \<Rightarrow> Some (Inl err, st3)
                           | Inr None \<Rightarrow> Some (Inr (), st3)
                           | Inr (Some i) \<Rightarrow>
                               inheritLoop e filepath
                                 (path_resolve (process_cwd e) [path_dirname inheritPath, i])
                                 st3))))))"

declare inheritLoop.simps [code]

text \<open>The body of \<open>readMkDocsYml\<close>; it resolves to the object cached under \<open>filepath\<close>.\<close>

definition readMkDocsYml_body ::
  "env \<Rightarrow> state \<Rightarrow> string \<Rightarrow> string \<Rightarrow> ((error + string) \<times> state) option" where
  "readMkDocsYml_body e st filepath cwd =
     (case readYaml e st filepath of
        (Inl err, st1) \<Rightarrow> Some (Inl err, st1)
      | (Inr mkDocsYml, st1) \<Rightarrow>
          (case resolveField e [cwd, path_dirname filepath] ''site_dir'' mkDocsYml of
             Inl err \<Rightarrow> Some (Inl err, st1)
           | Inr y1 \<Rightarrow>
               (let st2 = store st1 filepath y1
                in
                  (case pathField y1 ''INHERIT'' of
                     Inl err \<Rightarrow> Some (Inl err, st2)
                   | Inr None \<Rightarrow> Some (Inr filepath, st2)
                   | Inr (Some i) \<Rightarrow>
                       (case inheritLoop e filepath
                               (path_resolve (process_cwd e) [path_dirname filepath, i]) st2 of
                          None \<Rightarrow> None
                        | Some (Inl err, st3) \<Rightarrow> Some (Inl err, st3)
                        | Some (Inr u, st3) \<Rightarrow> Some (Inr filepath, st3))))))"

text \<open>
  \<open>readMkDocsYml = _.memoize(body)\<close>: the key is \<open>filepath\<close> alone, whatever
  \<open>cwd\<close> is; a hit hands back what the first call left, rejections included.
\<close>

definition readMkDocsYml ::
  "env \<Rightarrow> state \<Rightarrow> string \<Rightarrow> string \<Rightarrow> ((error + string) \<times> state) option" where
  "readMkDocsYml e st filepath cwd =
     (case mkDocsCache st filepath of
        Some r \<Rightarrow> Some (r, st)
      | None \<Rightarrow>
          (case readMkDocsYml_body e st filepath cwd of
             None \<Rightarrow> None
           | Some (r, st') \<Rightarrow>
               Some (r, st'\<lparr>mkDocsCache := (mkDocsCache st')(filepath := Some r)\<rparr>)))"

text \<open>The document a call hands to its caller: the content of the object it resolved to.\<close>

definition returned :: "((error + string) \<times> state) option \<Rightarrow> props option" where
  "returned out =
     (case out of
        Some (Inr ref, st) \<Rightarrow> deref st ref
      | _ \<Rightarrow> None)"

subsection \<open>Notions for stating properties of the merge\<close>


text \<open>
  A key is plain when no object inherits it: the merge then reads the object's own
  value, or \<open>undefined\<close>. \<open>plainKeys\<close> says of a value that, at every depth, its
  keys are plain and the keys of an array are its indices from \<open>0\<close> on, in order and
  without a hole, as \<open>YAML.parse\<close> builds arrays.
\<close>

definition plainKey :: "(string \<Rightarrow> bool) \<Rightarrow> string \<Rightarrow> bool" where
  "plainKey arr key \<longleftrightarrow> key \<notin> set objectPrototype \<and> \<not> arr key"

fun plainKeys :: "(string \<Rightarrow> bool) \<Rightarrow> yaml \<Rightarrow> bool" where
  "plainKeys arr (YObj k ps) =
     ((\<forall>key \<in> set (map fst ps). plainKey arr key) \<and>
      (k = Sequence \<longrightarrow> map fst ps = map toString [0..<length ps]) \<and>
      (\<forall>v \<in> set (map snd ps). plainKeys arr v))"
| "plainKeys arr v = True"

text \<open>
  Whether one round of \<open>baseMerge\<close> on the source property \<open>key: srcValue\<close>
  gives an object of kind \<open>k\<close> an own property \<open>key\<close> when it has none: it does
  unless the object inherits the key, where \<open>constructor\<close> counts as not inherited
  and \<open>__proto__\<close> is assigned a value that is no object, and no other.
\<close>

definition filled :: "(string \<Rightarrow> bool) \<Rightarrow> kind \<Rightarrow> string \<Rightarrow> yaml \<Rightarrow> bool" where
  "filled arr k key srcValue \<longleftrightarrow>
     (if key = ''__proto__'' then \<not> isObject srcValue
      else key = ''constructor'' \<or> \<not> inherits arr k key)"

text \<open>
  \<open>get_in v path\<close> follows a key path down through objects. \<open>vacant v path\<close> holds
  when the path runs through objects of \<open>v\<close> up to a key that is absent, so that a
  merge is free to fill it.
\<close>

fun get_in :: "yaml \<Rightarrow> string list \<Rightarrow> yaml option" where
  "get_in v [] = Some v"
| "get_in (YObj k ps) (x # xs) = (case map_of ps x of None \<Rightarrow> None | Some v \<Rightarrow> get_in v xs)"
| "get_in v (x # xs) = None"





text \<open>The documents of a chain after the rewriting of their directory fields.\<close>

definition resolvedField :: "env \<Rightarrow> string list \<Rightarrow> string \<Rightarrow> props \<Rightarrow> props" where
  "resolvedField e bases key d =
     (case pathField d key of
        Inr (Some v) \<Rightarrow> set_prop d key (YStr (path_resolve (process_cwd e) (bases @ [v])))
      | _ \<Rightarrow> d)"


definition resolvedParent :: "env \<Rightarrow> string \<times> props \<Rightarrow> props" where
  "resolvedParent e qd =
     resolvedField e [path_dirname (fst qd)] ''docs_dir''
       (resolvedField e [path_dirname (fst qd)] ''site_dir'' (snd qd))"



text \<open>The parents of a chain whose keys, at every depth, are plain.\<close>

definition plainParents :: "env \<Rightarrow> (string \<times> props) list \<Rightarrow> bool" where
  "plainParents e ds \<longleftrightarrow> (\<forall>qd \<in> set ds. plainKeys (arrayInherited e) (YObj Mapping (snd qd)))"




text \<open>\<open>path.isAbsolute\<close> (POSIX).\<close>

definition isAbsolute :: "string \<Rightarrow> bool" where
  "isAbsolute p \<longleftrightarrow> p \<noteq> [] \<and> hd p = CHR ''/''"

subsection \<open>A small file system for concrete runs\<close>

text \<open>
  The working directory is \<open>/proj/docs\<close>. \<open>child.yml\<close> and \<open>/proj/parent.yml\<close> are
  the two documents of the spec's example; the others exercise a scalar over a nested
  mapping, arrays under one key in a chain of two and of three documents, a parent key
  that every object inherits, and the directory fields. \<open>exArrayNames\<close> lists what
  an array of Node 18 has beyond its elements and the members of \<open>Object.prototype\<close>.
\<close>

definition exArrayNames :: "string list" where
  "exArrayNames =
     [''length'', ''at'', ''concat'', ''copyWithin'', ''fill'', ''find'', ''findIndex'',
      ''findLast'', ''findLastIndex'', ''lastIndexOf'', ''pop'', ''push'', ''reverse'',
      ''shift'', ''unshift'', ''slice'', ''sort'', ''splice'', ''includes'', ''indexOf'',
      ''join'', ''keys'', ''entries'', ''values'', ''forEach'', ''filter'', ''flat'',
      ''flatMap'', ''map'', ''every'', ''some'', ''reduce'', ''reduceRight'']"

definition exSeq3 :: props where
  "exSeq3 = [(''a'', ySeq [YNum 1]), (''INHERIT'', YStr ''seqmid.yml'')]"

definition exSeqMid :: props where
  "exSeqMid = [(''a'', ySeq [YNum 2, YNum 3]), (''INHERIT'', YStr ''seqfar.yml'')]"

definition exSeqFar :: props where
  "exSeqFar = [(''a'', ySeq [YNum 7, YNum 8, YNum 9])]"

definition exProto :: props where
  "exProto = [(''a'', YNum 1), (''INHERIT'', YStr ''protobase.yml'')]"

definition exProtoBase :: props where
  "exProtoBase = [(''toString'', YStr ''x''), (''b'', YNum 3)]"

definition exMix :: props where
  "exMix = [(''a'', YObj Mapping [(''x'', YNum 1)]), (''INHERIT'', YStr ''mixmid.yml'')]"

definition exMixMid :: props where
  "exMixMid = [(''a'', YNum 5), (''INHERIT'', YStr ''mixfar.yml'')]"

definition exMixFar :: props where
  "exMixFar = [(''a'', YObj Mapping [(''b'', YNum 2)])]"

definition exChild :: props where
  "exChild = [(''a'', YNum 1), (''INHERIT'', YStr ''../parent.yml'')]"

definition exParent :: props where
  "exParent = [(''a'', YNum 2), (''b'', YNum 3)]"

definition exScalar :: props where
  "exScalar = [(''a'', YNum 1), (''INHERIT'', YStr ''nested.yml'')]"

definition exNested :: props where
  "exNested = [(''a'', YObj Mapping [(''b'', YNum 2)])]"

definition exSeq :: props where
  "exSeq = [(''a'', ySeq [YNum 1]), (''INHERIT'', YStr ''seqbase.yml'')]"

definition exSeqBase :: props where
  "exSeqBase = [(''a'', ySeq [YNum 2, YNum 3])]"

definition exDirs :: props where
  "exDirs = [(''site_dir'', YStr ''site''), (''docs_dir'', YStr ''docs'')]"

definition exSite :: props where
  "exSite =
     [(''site_dir'', YStr ''site''),
      (''theme'', YObj Mapping [(''name'', YStr ''x'')]),
      (''INHERIT'', YStr ''../base/mkdocs.yml'')]"

definition exBase :: props where
  "exBase =
     [(''site_dir'', YStr ''out''),
      (''docs_dir'', YStr ''docs''),
      (''theme'', YObj Mapping [(''name'', YStr ''y''), (''palette'', YStr ''dark'')])]"

definition exFiles :: "(string \<times> props) list" where
  "exFiles =
     [(''child.yml'', exChild),
      (''/proj/parent.yml'', exParent),
      (''scalar.yml'', exScalar),
      (''/proj/docs/nested.yml'', exNested),
      (''seq.yml'', exSeq),
      (''/proj/docs/seqbase.yml'', exSeqBase),
      (''/proj/mkdocs.yml'', exDirs),
      (''site.yml'', exSite),
      (''/proj/base/mkdocs.yml'', exBase),
      (''seq3.yml'', exSeq3),
      (''/proj/docs/seqmid.yml'', exSeqMid),
      (''/proj/docs/seqfar.yml'', exSeqFar),
      (''proto.yml'', exProto),
      (''/proj/docs/protobase.yml'', exProtoBase),
      (''mix.yml'', exMix),
      (''/proj/docs/mixmid.yml'', exMixMid),
      (''/proj/docs/mixfar.yml'', exMixFar)]"

definition exEnv :: env where
  "exEnv =
     \<lparr>storage = (\<lambda>p. case map_of exFiles p of None \<Rightarrow> Inl FileError | Some d \<Rightarrow> Inr d),
      process_cwd = ''/proj/docs'',
      arrayInherited = (\<lambda>key. key \<in> set exArrayNames)\<rparr>"

text \<open>The state in which the first load of \<open>child.yml\<close> leaves the two caches.\<close>

definition exLoaded :: state where
  "exLoaded =
     \<lparr>yamlCache = (\<lambda>p. None)
        (''/proj/parent.yml'' := Some (Inr exParent),
         ''child.yml'' :=
           Some (Inr [(''a'', YNum 1), (''INHERIT'', YStr ''../parent.yml''), (''b'', YNum 3)])),
      mkDocsCache = (\<lambda>p. None)(''child.yml'' := Some (Inr ''child.yml'')),
      reads = 2\<rparr>"


section \<open>Properties of the element registry\<close>

lemma digit_char_inj: "a < 10 \<Longrightarrow> b < 10 \<Longrightarrow> digit_char a = digit_char b \<Longrightarrow> a = b"
proof -
  assume a: "a < 10" and b: "b < 10" and e: "digit_char a = digit_char b"
  have d: "distinct digits" by (simp add: digits_def)
  have l: "length digits = 10" by (simp add: digits_def)
  from e a b have "digits ! a = digits ! b" by (simp add: digit_char_def)
  with d l a b show ?thesis by (simp add: nth_eq_iff_index_eq)
qed

lemma toString_nonempty: "toString n \<noteq> []"
  by (subst toString.simps) simp

lemma toString_inj: "toString m = toString n \<Longrightarrow> m = n"
proof (induction m arbitrary: n rule: toString.induct)
  case (1 m)
  show ?case
  proof (cases "m < 10")
    case True
    then have m: "toString m = [digit_char m]" by (subst toString.simps) simp
    show ?thesis
    proof (cases "n < 10")
      case True
      then have "toString n = [digit_char n]" by (subst toString.simps) simp
      with m "1.prems" have "digit_char m = digit_char n" by simp
      with \<open>m < 10\<close> True show ?thesis by (rule digit_char_inj)
    next
      case False
      then have "toString n = toString (n div 10) @ [digit_char (n mod 10)]"
        by (subst toString.simps) simp
      with m "1.prems" have "toString (n div 10) = []" by simp
      then show ?thesis by (simp add: toString_nonempty)
    qed
  next
    case False
    then have m: "toString m = toString (m div 10) @ [digit_char (m mod 10)]"
      by (subst toString.simps) simp
    show ?thesis
    proof (cases "n < 10")
      case True
      then have "toString n = [digit_char n]" by (subst toString.simps) simp
      with m "1.prems" have "toString (m div 10) = []" by simp
      then show ?thesis by (simp add: toString_nonempty)
    next
      case nf: False
      then have "toString n = toString (n div 10) @ [digit_char (n mod 10)]"
        by (subst toString.simps) simp
      with m "1.prems" have e1: "toString (m div 10) = toString (n div 10)"
        and e2: "digit_char (m mod 10) = digit_char (n mod 10)" by simp_all
      from "1.IH" [OF False e1] have q: "m div 10 = n div 10" .
      have "m mod 10 = n mod 10" using e2 by (intro digit_char_inj) simp_all
      with q show ?thesis by (metis div_mult_mod_eq)
    qed
  qed
qed


lemma set_prop_fresh: "k \<notin> fst ` set ps \<Longrightarrow> set_prop ps k v = ps @ [(k, v)]"
  by (induction ps) auto

lemma findNode_None: "(findNode ps n = None) = (n \<notin> (\<lambda>p. node (snd p)) ` set ps)"
proof (induction ps)
  case Nil
  then show ?case by simp
next
  case (Cons p ps)
  then show ?case by (cases p) simp
qed

lemma findNode_Some: "findNode ps n = Some i \<Longrightarrow> (i, FakeElement n) \<in> set ps"
proof (induction ps)
  case Nil
  then show ?case by simp
next
  case (Cons p ps)
  obtain k el where p: "p = (k, el)" by (cases p)
  show ?case
  proof (cases "node el = n")
    case True
    with Cons.prems p have "i = k" by simp
    moreover from True have "el = FakeElement n" by (cases el) simp
    ultimately show ?thesis using p by simp
  next
    case False
    with Cons p show ?thesis by simp
  qed
qed

lemma findNode_first:
  "distinct (map (\<lambda>p. node (snd p)) ps) \<Longrightarrow> (i, FakeElement n) \<in> set ps \<Longrightarrow> findNode ps n = Some i"
proof (induction ps)
  case Nil
  then show ?case by simp
next
  case (Cons p ps)
  obtain k el where p: "p = (k, el)" by (cases p)
  show ?case
  proof (cases "node el = n")
    case True
    have "(i, FakeElement n) \<notin> set ps"
    proof
      assume "(i, FakeElement n) \<in> set ps"
      then have "n \<in> (\<lambda>p. node (snd p)) ` set ps" by force
      with Cons.prems(1) p True show False by simp
    qed
    with Cons.prems(2) p have "k = i" by simp
    with True p show ?thesis by simp
  next
    case False
    with Cons p show ?thesis by auto
  qed
qed

lemma reg_inv_keys: "reg_inv d \<Longrightarrow> fst ` set (elMap d) = toString ` {1..maxElId d}"
proof -
  assume "reg_inv d"
  then have "set (map fst (elMap d)) = set (map toString [1..<Suc (maxElId d)])"
    by (simp add: reg_inv_def)
  then show ?thesis by (simp only: set_map set_upt atLeastLessThanSuc_atLeastAtMost)
qed

lemma reg_inv_fresh: "reg_inv d \<Longrightarrow> toString (Suc (maxElId d)) \<notin> fst ` set (elMap d)"
proof
  assume i: "reg_inv d" and "toString (Suc (maxElId d)) \<in> fst ` set (elMap d)"
  then have "toString (Suc (maxElId d)) \<in> toString ` {1..maxElId d}" by (simp add: reg_inv_keys)
  then obtain k where "k \<in> {1..maxElId d}" "toString (Suc (maxElId d)) = toString k" by auto
  then show False by (auto dest: toString_inj)
qed

lemma addEl_eq:
  "reg_inv d \<Longrightarrow>
   addEl d n = (Element (toString (Suc (maxElId d))),
                d\<lparr>maxElId := Suc (maxElId d),
                  elMap := elMap d @ [(toString (Suc (maxElId d)), FakeElement n)]\<rparr>)"
  using reg_inv_fresh [of d] by (simp add: addEl_def Let_def set_prop_fresh)

lemma reg_inv_distinct_keys: "reg_inv d \<Longrightarrow> distinct (map fst (elMap d))"
  by (simp add: reg_inv_def distinct_map inj_on_def) (auto dest: toString_inj)

lemma reg_inv_addEl:
  assumes "reg_inv d" and "findNode (elMap d) n = None"
  shows "reg_inv (snd (addEl d n))"
proof -
  from assms(2) have "n \<notin> (\<lambda>p. node (snd p)) ` set (elMap d)" by (simp add: findNode_None)
  with assms(1) show ?thesis by (simp add: addEl_eq) (simp add: reg_inv_def)
qed

lemma reg_inv_key_nonempty: "reg_inv d \<Longrightarrow> (i, el) \<in> set (elMap d) \<Longrightarrow> i \<noteq> []"
proof -
  assume inv: "reg_inv d" and "(i, el) \<in> set (elMap d)"
  then have "i \<in> fst ` set (elMap d)" by force
  with inv have "i \<in> toString ` {1..maxElId d}" by (simp add: reg_inv_keys)
  then show ?thesis by (auto simp: toString_nonempty)
qed

lemma wrapNewEl_known:
  assumes "reg_inv d" and "(i, FakeElement n) \<in> set (elMap d)"
  shows "wrapNewEl d n = (Element i, d)"
proof -
  from assms have "findNode (elMap d) n = Some i" by (simp add: reg_inv_def findNode_first)
  moreover from assms have "i \<noteq> []" by (rule reg_inv_key_nonempty)
  ultimately show ?thesis by (simp add: wrapNewEl_def getExistingElementForNode_def)
qed

lemma wrapNewEl_cases:
  assumes "reg_inv d"
  shows "(\<exists>i. findNode (elMap d) n = Some i \<and> wrapNewEl d n = (Element i, d)) \<or>
         (findNode (elMap d) n = None \<and> wrapNewEl d n = addEl d n)"
proof (cases "findNode (elMap d) n")
  case None
  then show ?thesis by (simp add: wrapNewEl_def getExistingElementForNode_def)
next
  case (Some i)
  then have "(i, FakeElement n) \<in> set (elMap d)" by (rule findNode_Some)
  with assms have "wrapNewEl d n = (Element i, d)" by (rule wrapNewEl_known)
  with Some show ?thesis by simp
qed

lemma wrapNewEl_inv:
  assumes "reg_inv d"
  shows "reg_inv (snd (wrapNewEl d n)) \<and> set (elMap d) \<subseteq> set (elMap (snd (wrapNewEl d n))) \<and>
         (ELEMENT (fst (wrapNewEl d n)), FakeElement n) \<in> set (elMap (snd (wrapNewEl d n)))"
  using wrapNewEl_cases [OF assms, of n]
proof
  assume "\<exists>i. findNode (elMap d) n = Some i \<and> wrapNewEl d n = (Element i, d)"
  then obtain i where "findNode (elMap d) n = Some i" "wrapNewEl d n = (Element i, d)" by blast
  with assms show ?thesis by (simp add: findNode_Some)
next
  assume a: "findNode (elMap d) n = None \<and> wrapNewEl d n = addEl d n"
  with assms have "reg_inv (snd (wrapNewEl d n))" by (simp add: reg_inv_addEl)
  with a assms show ?thesis by (auto simp: addEl_eq)
qed

lemma wrapAll_inv:
  "reg_inv d \<Longrightarrow> reg_inv (snd (wrapAll d ns)) \<and> set (elMap d) \<subseteq> set (elMap (snd (wrapAll d ns)))"
proof (induction ns arbitrary: d)
  case Nil
  then show ?case by simp
next
  case (Cons n ns)
  obtain e d1 where w: "wrapNewEl d n = (e, d1)" by (cases "wrapNewEl d n")
  obtain es d2 where a: "wrapAll d1 ns = (es, d2)" by (cases "wrapAll d1 ns")
  from wrapNewEl_inv [OF Cons.prems, of n] w
  have i1: "reg_inv d1" and s1: "set (elMap d) \<subseteq> set (elMap d1)" by simp_all
  from Cons.IH [OF i1] a have "reg_inv d2" "set (elMap d1) \<subseteq> set (elMap d2)" by simp_all
  with s1 w a show ?case by auto
qed

lemma findElOrEls_state: "snd (findElOrEls d s sel m c) = d \<or>
        (\<exists>n. snd (findElOrEls d s sel m c) = snd (wrapNewEl d n)) \<or>
        (\<exists>ns. snd (findElOrEls d s sel m c) = snd (wrapAll d ns))"
proof (cases "s \<notin> set (map fst qMap) \<or> sel = ''badsel''")
  case True
  then show ?thesis by (auto simp: findElOrEls_def)
next
  case False
  show ?thesis
  proof (cases "map_of qMap s")
    case None
    with False show ?thesis by (simp add: findElOrEls_def)
  next
    case (Some name)
    show ?thesis
    proof (cases "queryMethod (appModel d) name")
      case None
      with False Some show ?thesis by (simp add: findElOrEls_def)
    next
      case q: (Some query)
      show ?thesis
      proof (cases "query sel c")
        case Nil
        with False Some q show ?thesis by (simp add: findElOrEls_def)
      next
        case (Cons el0 rest)
        show ?thesis
        proof (cases m)
          case True
          with False Some q Cons
          have "snd (findElOrEls d s sel m c) = snd (wrapAll d (el0 # rest))"
            by (simp add: findElOrEls_def case_prod_beta del: wrapAll.simps)
          then show ?thesis by blast
        next
          case m: False
          with False Some q Cons
          have "snd (findElOrEls d s sel m c) = snd (wrapNewEl d el0)"
            by (simp add: findElOrEls_def case_prod_beta)
          then show ?thesis by blast
        qed
      qed
    qed
  qed
qed

lemma findElOrEls_inv:
  assumes "reg_inv d"
  shows "reg_inv (snd (findElOrEls d s sel m c)) \<and>
         set (elMap d) \<subseteq> set (elMap (snd (findElOrEls d s sel m c)))"
proof -
  from findElOrEls_state [of d s sel m c]
  consider "snd (findElOrEls d s sel m c) = d"
    | n where "snd (findElOrEls d s sel m c) = snd (wrapNewEl d n)"
    | ns where "snd (findElOrEls d s sel m c) = snd (wrapAll d ns)" by blast
  then show ?thesis
  proof cases
    case 1
    with assms show ?thesis by simp
  next
    case 2
    with wrapNewEl_inv [OF assms, of n] show ?thesis by simp
  next
    case 3
    with wrapAll_inv [OF assms, of ns] show ?thesis by simp
  qed
qed

lemma steps_inv:
  "steps d d' \<Longrightarrow> reg_inv d \<Longrightarrow> reg_inv d' \<and> set (elMap d) \<subseteq> set (elMap d')"
proof (induction rule: steps.induct)
  case (steps_refl d)
  then show ?case by simp
next
  case (steps_wrap d d1 n)
  then have "reg_inv d1" "set (elMap d) \<subseteq> set (elMap d1)" by simp_all
  with wrapNewEl_inv [of d1 n] show ?case by blast
next
  case (steps_find d d1 strategy selector mult ctx)
  then have "reg_inv d1" "set (elMap d) \<subseteq> set (elMap d1)" by simp_all
  with findElOrEls_inv [of d1 strategy selector mult ctx] show ?case by blast
qed

lemma reg_inv_new: "reg_inv (newDriver m)"
  by (simp add: reg_inv_def newDriver_def)

lemma reg_inv_unique:
  assumes "reg_inv d" "(i, FakeElement a) \<in> set (elMap d)" "(i, FakeElement b) \<in> set (elMap d)"
  shows "a = b"
proof -
  from assms(1) have "distinct (map fst (elMap d))" by (rule reg_inv_distinct_keys)
  with assms(2,3) have "FakeElement a = FakeElement b" by (meson eq_key_imp_eq_value)
  then show ?thesis by simp
qed

text \<open>
  C3. The registry hands out equal ids exactly for identical nodes. Take any driver
  \<open>d1\<close> reached from a fresh one, register \<open>a\<close>, let any further calls happen,
  then register \<open>b\<close>: the two ids are equal if and only if \<open>a\<close> and \<open>b\<close> are the
  same node, and when they are, the second call leaves the driver as it found it (no
  new entry, the counter untouched).
\<close>

theorem lookupOrRegister_same_id_iff_same_node:
  assumes "steps (newDriver m) d1" and "wrapNewEl d1 a = (ea, d2)"
    and "steps d2 d3" and "wrapNewEl d3 b = (eb, d4)"
  shows "(ea = eb) = (a = b) \<and> (a = b \<longrightarrow> d4 = d3)"
proof -
  from steps_inv [OF assms(1) reg_inv_new] have i1: "reg_inv d1" by simp
  from wrapNewEl_inv [OF i1, of a] assms(2)
  have i2: "reg_inv d2" and ma: "(ELEMENT ea, FakeElement a) \<in> set (elMap d2)" by simp_all
  from steps_inv [OF assms(3) i2] have i3: "reg_inv d3" and s3: "set (elMap d2) \<subseteq> set (elMap d3)"
    by simp_all
  from wrapNewEl_inv [OF i3, of b] assms(4)
  have i4: "reg_inv d4" and s4: "set (elMap d3) \<subseteq> set (elMap d4)"
    and mb: "(ELEMENT eb, FakeElement b) \<in> set (elMap d4)" by simp_all
  from ma s3 have ma3: "(ELEMENT ea, FakeElement a) \<in> set (elMap d3)" by (rule subsetD [rotated])
  have same: "ea = eb \<and> d4 = d3" if "a = b"
  proof -
    from wrapNewEl_known [OF i3 ma3] have "wrapNewEl d3 a = (ea, d3)" by simp
    with that assms(4) show ?thesis by simp
  qed
  have diff: "a = b" if "ea = eb"
  proof -
    from ma3 s4 have "(ELEMENT ea, FakeElement a) \<in> set (elMap d4)" by (rule subsetD [rotated])
    with that have "(ELEMENT eb, FakeElement a) \<in> set (elMap d4)" by simp
    from reg_inv_unique [OF i4 this mb] show ?thesis .
  qed
  from same diff show ?thesis by (cases "a = b") auto
qed


lemma toString_1: "toString (Suc 0) = ''1''"
  by (simp add: toString.simps digit_char_def digits_def)

lemma toString_2: "toString (Suc (Suc 0)) = ''2''"
  by (simp add: toString.simps digit_char_def digits_def)

lemma wrapNewEl_fresh_7: "wrapNewEl (newDriver exModel) 7 = (Element ''1'', exDriver1)"
  by (simp add: wrapNewEl_def getExistingElementForNode_def addEl_def newDriver_def toString_1
        exDriver1_def)

lemma wrapNewEl_second_8: "wrapNewEl exDriver1 8 = (Element ''2'', exDriver2)"
  by (simp add: wrapNewEl_def getExistingElementForNode_def addEl_def toString_2
        exDriver1_def exDriver2_def)

theorem lookupOrRegister_same_id_iff_same_node_witness:
  "steps (newDriver exModel) (newDriver exModel) \<and>
   wrapNewEl (newDriver exModel) 7 = (Element ''1'', exDriver1) \<and>
   steps exDriver1 exDriver1 \<and>
   wrapNewEl exDriver1 8 = (Element ''2'', exDriver2) \<and>
   wrapNewEl exDriver1 7 = (Element ''1'', exDriver1) \<and>
   (Element ''1'' = Element ''2'') = ((7::nat) = 8)"
proof -
  have s1: "steps (newDriver exModel) (newDriver exModel)" by (rule steps_refl)
  have s2: "steps exDriver1 exDriver1" by (rule steps_refl)
  have w3: "wrapNewEl exDriver1 7 = (Element ''1'', exDriver1)"
    by (simp add: wrapNewEl_def getExistingElementForNode_def exDriver1_def)
  from lookupOrRegister_same_id_iff_same_node [OF s1 wrapNewEl_fresh_7 s2 wrapNewEl_second_8]
  have d: "(Element ''1'' = Element ''2'') = ((7::nat) = 8)" by (rule conjunct1)
  from lookupOrRegister_same_id_iff_same_node [OF s1 wrapNewEl_fresh_7 s2 w3]
  have "(7::nat) = 7 \<longrightarrow> exDriver1 = exDriver1" by (rule conjunct2)
  from s1 wrapNewEl_fresh_7 s2 wrapNewEl_second_8 w3 d show ?thesis by (intro conjI)
qed

lemma strategies_qMap: "set (map fst qMap) = strategies"
  by (simp add: qMap_def strategies_def)

text \<open>
  C7. \<open>findElOrEls\<close> throws \<open>UnknownCommandError\<close> for every strategy outside the
  six recognised ones, and \<open>InvalidSelectorError\<close> for a recognised strategy with the
  selector \<open>badsel\<close>; either way the driver, and so the registry, is as before.
\<close>

theorem findElOrEls_rejects:
  "(strategy \<notin> strategies \<longrightarrow>
      findElOrEls d strategy selector mult ctx = (Inl UnknownCommandError, d)) \<and>
   (strategy \<in> strategies \<longrightarrow>
      findElOrEls d strategy ''badsel'' mult ctx = (Inl InvalidSelectorError, d))"
  by (simp add: findElOrEls_def strategies_qMap del: set_map)

theorem findElOrEls_rejects_witness:
  "''bogus-strategy'' \<notin> strategies \<and> ''id'' \<in> strategies \<and>
   findElOrEls (newDriver exModel) ''bogus-strategy'' ''x'' False None =
     (Inl UnknownCommandError, newDriver exModel) \<and>
   findElOrEls (newDriver exModel) ''id'' ''badsel'' False None =
     (Inl InvalidSelectorError, newDriver exModel)"
proof -
  have a: "''bogus-strategy'' \<notin> strategies" by (simp add: strategies_def)
  have b: "''id'' \<in> strategies" by (simp add: strategies_def)
  from a b
    findElOrEls_rejects [of "''bogus-strategy''" "newDriver exModel" "''x''" False None]
    findElOrEls_rejects [of "''id''" "newDriver exModel" "''x''" False None]
  show ?thesis by simp
qed

text \<open>
  C8. With a recognised strategy and a selector other than \<open>badsel\<close>, when the query
  of the model that the strategy maps to finds nothing, \<open>findElOrEls\<close> returns the
  empty sequence if \<open>mult\<close> is true and throws \<open>NoSuchElementError\<close> if it is
  false; either way the driver is as before.
\<close>

theorem findElOrEls_no_match:
  assumes "strategy \<in> strategies" and "selector \<noteq> ''badsel''"
    and "map_of qMap strategy = Some name" and "queryMethod (appModel d) name = Some query"
    and "query selector ctx = []"
  shows "findElOrEls d strategy selector True ctx = (Inr (Many []), d) \<and>
         findElOrEls d strategy selector False ctx = (Inl NoSuchElementError, d)"
  using assms by (simp add: findElOrEls_def strategies_qMap del: set_map)

theorem findElOrEls_no_match_witness:
  "''id'' \<in> strategies \<and> ''missing'' \<noteq> ''badsel'' \<and>
   map_of qMap ''id'' = Some ''idQuery'' \<and>
   queryMethod (appModel (newDriver exModel)) ''idQuery'' = Some (idQuery exModel) \<and>
   idQuery exModel ''missing'' None = [] \<and>
   findElOrEls (newDriver exModel) ''id'' ''missing'' True None =
     (Inr (Many []), newDriver exModel) \<and>
   findElOrEls (newDriver exModel) ''id'' ''missing'' False None =
     (Inl NoSuchElementError, newDriver exModel)"
proof -
  have a: "''id'' \<in> strategies" by (simp add: strategies_def)
  have b: "''missing'' \<noteq> ''badsel''" by simp
  have c: "map_of qMap ''id'' = Some ''idQuery''" by (simp add: qMap_def)
  have d: "queryMethod (appModel (newDriver exModel)) ''idQuery'' = Some (idQuery exModel)"
    by (simp add: queryMethod_def newDriver_def)
  have e: "idQuery exModel ''missing'' None = []" by (simp add: exModel_def)
  from findElOrEls_no_match [OF a b c d e] a b c d e show ?thesis by simp
qed

text \<open>
  C9. Ids are the decimal strings of the counter \<open>maxElId\<close>. The counter of a fresh
  driver is 0 and the first id \<open>wrapNewEl\<close> assigns is \<open>1\<close>. In every driver reached
  from a fresh one, the ids assigned so far are the decimal strings of
  \<open>1, 2, ..., maxElId\<close> in the order of assignment (so they increase and are all
  different); a node not yet registered gets the decimal string of the counter plus
  one, as a new last entry, and the counter moves up by one; a node already registered
  changes nothing.
\<close>

theorem registry_ids_count_up:
  "maxElId (newDriver m) = 0 \<and>
   fst (wrapNewEl (newDriver m) a) = Element ''1'' \<and>
   (steps (newDriver m) d \<longrightarrow>
      map fst (elMap d) = map toString [1..<Suc (maxElId d)] \<and>
      distinct (map fst (elMap d)) \<and>
      (getExistingElementForNode d a = None \<longrightarrow>
         wrapNewEl d a =
           (Element (toString (maxElId d + 1)),
            d\<lparr>maxElId := maxElId d + 1,
              elMap := elMap d @ [(toString (maxElId d + 1), FakeElement a)]\<rparr>)) \<and>
      (getExistingElementForNode d a \<noteq> None \<longrightarrow> snd (wrapNewEl d a) = d))"
proof -
  have first: "fst (wrapNewEl (newDriver m) a) = Element ''1''"
    by (simp add: wrapNewEl_def getExistingElementForNode_def addEl_def newDriver_def toString_1)
  have rest: "map fst (elMap d) = map toString [1..<Suc (maxElId d)] \<and>
      distinct (map fst (elMap d)) \<and>
      (getExistingElementForNode d a = None \<longrightarrow>
         wrapNewEl d a =
           (Element (toString (maxElId d + 1)),
            d\<lparr>maxElId := maxElId d + 1,
              elMap := elMap d @ [(toString (maxElId d + 1), FakeElement a)]\<rparr>)) \<and>
      (getExistingElementForNode d a \<noteq> None \<longrightarrow> snd (wrapNewEl d a) = d)"
    if st: "steps (newDriver m) d"
  proof -
    from steps_inv [OF st reg_inv_new] have inv: "reg_inv d" by simp
    then have keys: "map fst (elMap d) = map toString [1..<Suc (maxElId d)]"
      by (simp add: reg_inv_def)
    from inv have dist: "distinct (map fst (elMap d))" by (rule reg_inv_distinct_keys)
    have new: "wrapNewEl d a =
           (Element (toString (maxElId d + 1)),
            d\<lparr>maxElId := maxElId d + 1,
              elMap := elMap d @ [(toString (maxElId d + 1), FakeElement a)]\<rparr>)"
      if "getExistingElementForNode d a = None"
      using that addEl_eq [OF inv, of a]
      by (simp add: wrapNewEl_def)
    have old: "snd (wrapNewEl d a) = d" if "getExistingElementForNode d a \<noteq> None"
      using that wrapNewEl_cases [OF inv, of a]
      by (auto simp: getExistingElementForNode_def)
    from keys dist new old show ?thesis by blast
  qed
  have zero: "maxElId (newDriver m) = 0" by (simp add: newDriver_def)
  from zero first rest show ?thesis by blast
qed

theorem registry_ids_count_up_witness:
  "steps (newDriver exModel) exDriver1 \<and>
   getExistingElementForNode exDriver1 8 = None \<and>
   wrapNewEl exDriver1 8 = (Element ''2'', exDriver2) \<and>
   map fst (elMap exDriver2) = [''1'', ''2''] \<and>
   fst (wrapNewEl (newDriver exModel) (7::nat)) = Element ''1''"
proof -
  have "steps (newDriver exModel) (snd (wrapNewEl (newDriver exModel) 7))"
    by (rule steps_wrap) (rule steps_refl)
  then have s: "steps (newDriver exModel) exDriver1" by (simp add: wrapNewEl_fresh_7)
  have g: "getExistingElementForNode exDriver1 8 = None"
    by (simp add: getExistingElementForNode_def exDriver1_def)
  from s registry_ids_count_up [of exModel 8 exDriver1]
  have "getExistingElementForNode exDriver1 8 = None \<longrightarrow>
        wrapNewEl exDriver1 8 =
          (Element (toString (maxElId exDriver1 + 1)),
           exDriver1\<lparr>maxElId := maxElId exDriver1 + 1,
                     elMap := elMap exDriver1 @ [(toString (maxElId exDriver1 + 1), FakeElement 8)]\<rparr>)"
    by blast
  from this g have "wrapNewEl exDriver1 8 =
          (Element (toString (maxElId exDriver1 + 1)),
           exDriver1\<lparr>maxElId := maxElId exDriver1 + 1,
                     elMap := elMap exDriver1 @ [(toString (maxElId exDriver1 + 1), FakeElement 8)]\<rparr>)"
    by (rule mp)
  then have w: "wrapNewEl exDriver1 8 = (Element ''2'', exDriver2)"
    by (simp add: exDriver1_def exDriver2_def toString_2)
  have k: "map fst (elMap exDriver2) = [''1'', ''2'']" by (simp add: exDriver2_def)
  from registry_ids_count_up [of exModel 7 "newDriver exModel"]
  have f: "fst (wrapNewEl (newDriver exModel) (7::nat)) = Element ''1''" by blast
  from s g w k f show ?thesis by (intro conjI)
qed

section \<open>Properties of the configuration loader\<close>

subsection \<open>The merge\<close>


lemma keys_set_prop: "fst ` set (set_prop ps k v) = insert k (fst ` set ps)"
proof (induction ps)
  case Nil
  then show ?case by simp
next
  case (Cons p ps)
  then show ?case by (cases p) auto
qed
















text \<open>The keys of a merged object: its own, and those of the source that are filled in.\<close>

lemma baseMerge_step_keys:
  "fst ` set
     (if key = ''__proto__'' then
          (if isObject srcValue then object else set_prop object key srcValue)
        else
          (case safeGet arr k object key of
             Own objValue \<Rightarrow> set_prop object key (customDefaultsMerge arr objValue srcValue)
           | Foreign \<Rightarrow> object
           | Undefined \<Rightarrow> set_prop object key (copyValue arr srcValue))) =
   fst ` set object \<union> {x. x = key \<and> filled arr k key srcValue}"
proof (cases "key = ''__proto__''")
  case True
  then show ?thesis by (auto simp: filled_def keys_set_prop)
next
  case False
  show ?thesis
  proof (cases "map_of object key")
    case None
    with False show ?thesis by (auto simp: filled_def safeGet_def keys_set_prop)
  next
    case (Some ov)
    then have "key \<in> fst ` set object" by (auto dest: map_of_SomeD intro: rev_image_eqI)
    with False Some show ?thesis by (auto simp: safeGet_def keys_set_prop)
  qed
qed

lemma baseMerge_keys:
  "fst ` set (baseMerge arr k a b) =
     fst ` set a \<union> {key. \<exists>v. (key, v) \<in> set b \<and> filled arr k key v}"
proof (induction b arbitrary: a)
  case Nil
  then show ?case by simp
next
  case (Cons kv b)
  obtain key v where kv: "kv = (key, v)" by (cases kv)
  show ?case
    unfolding kv baseMerge.simps Cons.IH baseMerge_step_keys by auto
qed

lemma baseMerge_keys_mono: "fst ` set a \<subseteq> fst ` set (baseMerge arr k a b)"
  by (simp add: baseMerge_keys)
















subsection \<open>The loop along a chain\<close>











lemma readMkDocsYml_memo:
  assumes "readMkDocsYml e st p cwd = Some (r, st1)"
  shows "readMkDocsYml e st1 p cwd' = Some (r, st1)"
proof (cases "mkDocsCache st p")
  case (Some r0)
  with assms show ?thesis by (simp add: readMkDocsYml_def)
next
  case None
  with assms obtain st' where "readMkDocsYml_body e st p cwd = Some (r, st')"
    and "st1 = st'\<lparr>mkDocsCache := (mkDocsCache st')(p := Some r)\<rparr>"
    by (auto simp: readMkDocsYml_def split: option.splits)
  then show ?thesis by (simp add: readMkDocsYml_def)
qed





lemma keys_resolvedField: "fst ` set (resolvedField e bases key d) = fst ` set d"
proof (cases "pathField d key")
  case (Inl a)
  then show ?thesis by (simp add: resolvedField_def)
next
  case (Inr x)
  show ?thesis
  proof (cases x)
    case None
    with Inr show ?thesis by (simp add: resolvedField_def)
  next
    case (Some s)
    with Inr have "map_of d key \<noteq> None" by (auto simp: pathField_def split: option.splits)
    then have "key \<in> fst ` set d" by (simp add: map_of_eq_None_iff)
    with Inr Some show ?thesis by (auto simp: resolvedField_def keys_set_prop)
  qed
qed




subsection \<open>The accumulator along a chain\<close>



















subsection \<open>Claims about \<open>readMkDocsYml\<close>\<close>

lemmas run_defs = returned_def readMkDocsYml_def readMkDocsYml_body_def inheritLoop.simps
  readYaml_def emptyState_def exEnv_def exFiles_def exChild_def exParent_def exScalar_def
  exNested_def exSeq_def exSeqBase_def exDirs_def exSite_def exBase_def exSeq3_def exSeqMid_def
  exSeqFar_def exProto_def exProtoBase_def exMix_def exMixMid_def exMixFar_def
  resolveField_def pathField_def store_def
  deref_def defaultsDeep_def safeGet_def inherits_def objectPrototype_def exArrayNames_def
  path_resolve_def path_dirname_def Let_def ySeq_def
  toString.simps digit_char_def digits_def







lemma get_in_key: "get_in (YObj k d) [x] = map_of d x"
  by (simp split: option.split)


lemma keys_resolvedParent: "fst ` set (resolvedParent e qd) = fst ` set (snd qd)"
  by (simp add: resolvedParent_def keys_resolvedField)











lemma site_plain: "plainParents exEnv [(''/proj/base/mkdocs.yml'', exBase)]"
  by (simp add: plainParents_def plainKey_def run_defs)




















text \<open>
  C6. \<open>readMkDocsYml\<close> is memoized by the literal path: whenever a call for \<open>p\<close>
  has returned, with a document or with an error, a second call for \<open>p\<close> (whatever
  its \<open>cwd\<close>) returns the same outcome and leaves the state as it is; in particular
  the counter of storage reads and the cache of \<open>readYaml\<close> do not move, and the
  document handed back is the same.
\<close>

theorem readMkDocsYml_memoized:
  assumes "readMkDocsYml e st p cwd = Some (r, st1)"
  shows "readMkDocsYml e st1 p cwd' = Some (r, st1) \<and>
         (\<forall>r2 st2. readMkDocsYml e st1 p cwd' = Some (r2, st2) \<longrightarrow>
            r2 = r \<and> reads st2 = reads st1 \<and> yamlCache st2 = yamlCache st1) \<and>
         returned (readMkDocsYml e st1 p cwd') = returned (readMkDocsYml e st p cwd)"
proof -
  from readMkDocsYml_memo [OF assms, of cwd']
  have "readMkDocsYml e st1 p cwd' = Some (r, st1)" .
  with assms show ?thesis by simp
qed

lemma child_run:
  "readMkDocsYml exEnv emptyState ''child.yml'' ''/proj/docs'' = Some (Inr ''child.yml'', exLoaded)"
  by (simp add: run_defs exLoaded_def)

theorem readMkDocsYml_memoized_witness:
  "readMkDocsYml exEnv emptyState ''child.yml'' ''/proj/docs'' = Some (Inr ''child.yml'', exLoaded) \<and>
   readMkDocsYml exEnv exLoaded ''child.yml'' ''/elsewhere'' = Some (Inr ''child.yml'', exLoaded) \<and>
   reads exLoaded = 2"
proof -
  from readMkDocsYml_memoized [OF child_run, of "''/elsewhere''"]
  have "readMkDocsYml exEnv exLoaded ''child.yml'' ''/elsewhere'' = Some (Inr ''child.yml'', exLoaded)"
    by (rule conjunct1)
  moreover have "reads exLoaded = 2" by (simp add: exLoaded_def)
  ultimately show ?thesis using child_run by (intro conjI)
qed

text \<open>
  C2, at the failing input. The top-level document \<open>/proj/mkdocs.yml\<close> declares
  \<open>site_dir: site\<close> and \<open>docs_dir: docs\<close>. After \<open>readMkDocsYml\<close> its
  \<open>site_dir\<close> is \<open>/proj/site\<close>, but its \<open>docs_dir\<close> is still the relative
  \<open>docs\<close>: the code rewrites \<open>docs_dir\<close> for inherited parents only.
\<close>

theorem top_level_docs_dir_stays_relative:
  "storage exEnv ''/proj/mkdocs.yml'' = Inr [(''site_dir'', YStr ''site''), (''docs_dir'', YStr ''docs'')] \<and>
   returned (readMkDocsYml exEnv emptyState ''/proj/mkdocs.yml'' ''/proj/docs'') =
     Some [(''site_dir'', YStr ''/proj/site''), (''docs_dir'', YStr ''docs'')] \<and>
   \<not> isAbsolute ''docs''"
  by (simp add: run_defs isAbsolute_def)







end
